theory Spec2Isabelle
  imports Complex_Main "HOL-Library.Multiset"
begin

section \<open>JavaScript and SQLite values\<close>

text \<open>
  A JavaScript number: NaN, a finite value, or an infinity (\<open>True\<close> for the negative
  one). A value parsed from a JSON body: null, a boolean, a number, a string, an array
  or an object. A field the body does not have (\<open>undefined\<close>) is \<open>None\<close>.
\<close>

datatype jsnum = NaN | Num rat | Infinity bool

datatype json =
  JNull
| JBool bool
| JNum jsnum
| JStr string
| JArr "json list"
| JObj "(string \<times> json) list"

text \<open>
  A value as SQLite holds it in a cell: NULL, an integer, a real number that is not
  held as an integer, an infinity (\<open>True\<close> for the negative one), or text.
\<close>

datatype sqlval = SNull | SInt int | SReal rat | SInf bool | SText string

text \<open>
  Some conversions are not app.js's but those of the JavaScript engine, of the
  node-sqlite3 binding and of SQLite, and are determined here only on the inputs
  where the definitions below say so. For the rest the handlers take them as the
  parameter \<open>rt\<close>: the engine's conversions between strings and numbers; the text
  the binding passes for an array or an object; the value SQLite makes, under INTEGER
  affinity, of a text that may read as a number but is not a plain decimal integer;
  and the text SQLite renders for a real number.
\<close>

record runtime =
  StringToNumber :: "string \<Rightarrow> jsnum"
  NumberToString :: "jsnum \<Rightarrow> string"
  ObjectText :: "json \<Rightarrow> string"
  NumericText :: "string \<Rightarrow> sqlval"
  RealText :: "sqlval \<Rightarrow> string"

text \<open>Truthiness, as \<open>done ? 1 : 0\<close> tests it.\<close>

fun ToBoolean :: "json option \<Rightarrow> bool" where
  "ToBoolean None = False"
| "ToBoolean (Some JNull) = False"
| "ToBoolean (Some (JBool b)) = b"
| "ToBoolean (Some (JNum NaN)) = False"
| "ToBoolean (Some (JNum (Num q))) = (q \<noteq> 0)"
| "ToBoolean (Some (JNum (Infinity s))) = True"
| "ToBoolean (Some (JStr s)) = (s \<noteq> [])"
| "ToBoolean (Some (JArr xs)) = True"
| "ToBoolean (Some (JObj kvs)) = True"

text \<open>\<open>Array.prototype.join\<close> with a comma, and \<open>String.prototype.split\<close> on a comma.\<close>

fun join_comma :: "string list \<Rightarrow> string" where
  "join_comma [] = []"
| "join_comma [s] = s"
| "join_comma (s # t # ss) = s @ CHR '','' # join_comma (t # ss)"

fun split_comma :: "string \<Rightarrow> string list" where
  "split_comma [] = [[]]"
| "split_comma (c # cs) =
     (if c = CHR '','' then [] # split_comma cs
      else (case split_comma cs of
              [] \<Rightarrow> [[c]]
            | w # ws \<Rightarrow> (c # w) # ws))"

text \<open>
  The string of a value: an array joins the strings of its elements, with the empty
  string for null; an object parsed from JSON is "[object Object]".
\<close>

fun ToString :: "runtime \<Rightarrow> json \<Rightarrow> string" where
  "ToString rt JNull = ''null''"
| "ToString rt (JBool b) = (if b then ''true'' else ''false'')"
| "ToString rt (JNum n) = NumberToString rt n"
| "ToString rt (JStr s) = s"
| "ToString rt (JArr xs) = join_comma (map (\<lambda>x. if x = JNull then [] else ToString rt x) xs)"
| "ToString rt (JObj kvs) = ''[object Object]''"

text \<open>
  The comparison \<open>done == 1\<close>: a number is compared as it is, a boolean and a string
  are converted to numbers, an array or object is first converted to its string;
  \<open>undefined\<close> and null equal no number.
\<close>

fun loose_equals_1 :: "runtime \<Rightarrow> json option \<Rightarrow> bool" where
  "loose_equals_1 rt None = False"
| "loose_equals_1 rt (Some JNull) = False"
| "loose_equals_1 rt (Some (JBool b)) = b"
| "loose_equals_1 rt (Some (JNum n)) = (n = Num 1)"
| "loose_equals_1 rt (Some (JStr s)) = (StringToNumber rt s = Num 1)"
| "loose_equals_1 rt (Some (JArr xs)) = (StringToNumber rt (ToString rt (JArr xs)) = Num 1)"
| "loose_equals_1 rt (Some (JObj kvs)) = (StringToNumber rt (ToString rt (JObj kvs)) = Num 1)"

section \<open>Integers as decimal text\<close>

text \<open>
  The store renders an integer cell as decimal text inside GROUP_CONCAT, and
  \<open>Number\<close> reads such text back; the same text is the id in a request path.
\<close>

definition digit_char :: "nat \<Rightarrow> char" where
  "digit_char n = ''0123456789'' ! n"

definition is_digit :: "char \<Rightarrow> bool" where
  "is_digit c = (48 \<le> (of_char c :: nat) \<and> (of_char c :: nat) \<le> 57)"

definition digit_val :: "char \<Rightarrow> nat" where
  "digit_val c = of_char c - 48"

fun nat_text :: "nat \<Rightarrow> string" where
  "nat_text n = (if n < 10 then [digit_char n] else nat_text (n div 10) @ [digit_char (n mod 10)])"

declare nat_text.simps [simp del]

definition int_text :: "int \<Rightarrow> string" where
  "int_text i = (if i < 0 then CHR ''-'' # nat_text (nat (- i)) else nat_text (nat i))"

definition nat_of_digits :: "string \<Rightarrow> nat" where
  "nat_of_digits cs = foldl (\<lambda>acc c. 10 * acc + digit_val c) 0 cs"

definition int_of_text :: "string \<Rightarrow> int option" where
  "int_of_text s =
     (case s of
        [] \<Rightarrow> None
      | c # cs \<Rightarrow>
          if c = CHR ''-'' then
            (if cs \<noteq> [] \<and> list_all is_digit cs then Some (- int (nat_of_digits cs)) else None)
          else if list_all is_digit s then Some (int (nat_of_digits s))
          else None)"

text \<open>
  The JavaScript number nearest to an integer: the integer itself up to 53 bits, and
  beyond that the integer rounded to 53 significant bits, a tie going to the even one.
\<close>

fun bit_length :: "nat \<Rightarrow> nat" where
  "bit_length n = (if n = 0 then 0 else Suc (bit_length (n div 2)))"

declare bit_length.simps [simp del]

definition round_to_double :: "int \<Rightarrow> int" where
  "round_to_double i =
     (let a = nat \<bar>i\<bar>;
          e = bit_length a - 53;
          q = a div 2 ^ e;
          r = a mod 2 ^ e;
          m = (if 2 ^ e < 2 * r \<or> (2 * r = 2 ^ e \<and> odd q) then q + 1 else q) * 2 ^ e
      in if i < 0 then - int m else int m)"

text \<open>
  \<open>Number\<close> applied to a string: on a decimal integer of at most 20 significant
  digits, with or without a minus sign, the number nearest to the integer it denotes;
  on any other string, the engine's conversion.
\<close>

definition Number :: "runtime \<Rightarrow> string \<Rightarrow> jsnum" where
  "Number rt s =
     (case int_of_text s of
        Some i \<Rightarrow> if \<bar>i\<bar> < 10 ^ 20 then Num (of_int (round_to_double i)) else StringToNumber rt s
      | None \<Rightarrow> StringToNumber rt s)"

section \<open>Values bound to statements\<close>

text \<open>
  A text under INTEGER affinity: a plain decimal integer that fits 64 bits becomes
  that integer; a text with a character that no number is written with stays text;
  the empty text stays text; what SQLite makes of any other text is \<open>NumericText\<close>.
\<close>

definition numeric_char :: "char \<Rightarrow> bool" where
  "numeric_char c = (is_digit c \<or> c \<in> set ''+-.eE '' \<or> (9 \<le> (of_char c :: nat) \<and> (of_char c :: nat) \<le> 13))"

definition integer_affinity_text :: "runtime \<Rightarrow> string \<Rightarrow> sqlval" where
  "integer_affinity_text rt s =
     (case int_of_text s of
        Some i \<Rightarrow> if \<bar>i\<bar> < 2 ^ 63 then SInt i else NumericText rt s
      | None \<Rightarrow> if s \<noteq> [] \<and> list_all numeric_char s then NumericText rt s else SText s)"

text \<open>
  A JSON value that a handler binds to a parameter, as SQLite holds it once stored in
  a column of INTEGER affinity (\<open>parent_id\<close>, \<open>child_id\<close>) and as it compares it with
  such a column (\<open>id = ?\<close>). The binding passes null as NULL, a boolean as 0 or 1, a
  number as an integer or a real, a string as text, and an array or object as the
  text \<open>ObjectText\<close>; under INTEGER affinity a real without fraction that fits 64
  bits is held as an integer, and a text as \<open>integer_affinity_text\<close> says.
\<close>

fun store_value :: "runtime \<Rightarrow> json \<Rightarrow> sqlval" where
  "store_value rt JNull = SNull"
| "store_value rt (JBool b) = SInt (if b then 1 else 0)"
| "store_value rt (JNum NaN) = SNull"
| "store_value rt (JNum (Num q)) =
     (if q = of_int \<lfloor>q\<rfloor> \<and> \<bar>\<lfloor>q\<rfloor>\<bar> < 2 ^ 63 then SInt \<lfloor>q\<rfloor> else SReal q)"
| "store_value rt (JNum (Infinity s)) = SInf s"
| "store_value rt (JStr s) = integer_affinity_text rt s"
| "store_value rt (JArr xs) = integer_affinity_text rt (ObjectText rt (JArr xs))"
| "store_value rt (JObj kvs) = integer_affinity_text rt (ObjectText rt (JObj kvs))"

text \<open>
  The order of values in an index: NULL first, then the numbers by value, then the
  texts, byte by byte.
\<close>

fun text_le :: "string \<Rightarrow> string \<Rightarrow> bool" where
  "text_le [] t = True"
| "text_le (c # s) [] = False"
| "text_le (c # s) (d # t) = ((of_char c :: nat) < of_char d \<or> (c = d \<and> text_le s t))"

fun sql_rank :: "sqlval \<Rightarrow> nat" where
  "sql_rank SNull = 0"
| "sql_rank (SInf neg) = (if neg then 1 else 3)"
| "sql_rank (SInt i) = 2"
| "sql_rank (SReal q) = 2"
| "sql_rank (SText s) = 4"

fun sql_number :: "sqlval \<Rightarrow> rat" where
  "sql_number (SInt i) = of_int i"
| "sql_number (SReal q) = q"
| "sql_number v = 0"

fun sql_text :: "sqlval \<Rightarrow> string" where
  "sql_text (SText s) = s"
| "sql_text v = []"

definition sql_le :: "sqlval \<Rightarrow> sqlval \<Rightarrow> bool" where
  "sql_le a b =
     (sql_rank a < sql_rank b \<or>
      (sql_rank a = sql_rank b \<and> sql_number a \<le> sql_number b \<and> text_le (sql_text a) (sql_text b)))"

fun insert_sorted :: "sqlval \<Rightarrow> sqlval list \<Rightarrow> sqlval list" where
  "insert_sorted v [] = [v]"
| "insert_sorted v (w # ws) = (if sql_le v w then v # w # ws else w # insert_sorted v ws)"

definition index_order :: "sqlval list \<Rightarrow> sqlval list" where
  "index_order vs = foldr insert_sorted vs []"

section \<open>The store: the two tables of app.js and the statements run on them\<close>

text \<open>
  A row of table \<open>tasks\<close>, one field per column of the CREATE TABLE statement.
  Column \<open>done\<close> holds the integer the handlers bind (0 or 1); \<open>description\<close> is
  NULL (\<open>None\<close>) when the request carries none. Ids and positions are integers;
  they are unbounded here, SQLite's have 64 bits, a bound that ids counted up from 1
  and positions counted up from 0 do not come near.
\<close>

record task =
  t_id :: int
  t_title :: string
  t_description :: "string option"
  t_done :: int
  t_position :: int
  t_created_at :: nat

text \<open>
  A row of table \<open>task_relationships\<close>: the pair (parent_id, child_id). The columns
  are declared INTEGER, which in SQLite is an affinity and not a constraint: a cell
  holds whatever value was bound, converted as \<open>store_value\<close> says.
\<close>

type_synonym relationship = "sqlval \<times> sqlval"

text \<open>
  The database behind the connection \<open>db\<close>: the rows of both tables in rowid order, the
  AUTOINCREMENT counter of table \<open>tasks\<close> (the largest id ever handed out), and the
  connection's foreign-key switch. SQLite enforces FOREIGN KEY clauses, and with them
  ON DELETE CASCADE, only on a connection where that switch has been turned on.
\<close>

record db =
  tasks :: "task list"
  task_relationships :: "relationship list"
  sqlite_sequence :: int
  foreign_keys :: bool

text \<open>
  The connection as app.js opens it: \<open>new sqlite3.Database\<close> followed by the two
  CREATE TABLE IF NOT EXISTS statements on a fresh file. No statement of app.js turns
  the foreign-key switch on, so it keeps SQLite's default, off.
\<close>

definition open_db :: db where
  "open_db = \<lparr>tasks = [], task_relationships = [], sqlite_sequence = 0, foreign_keys = False\<rparr>"

text \<open>
  A statement given to \<open>db.run\<close> ends in an error message (\<open>Inl\<close>) or in the
  database after it, with what the callback reads of it: \<open>this.lastID\<close> after the
  INSERT into \<open>tasks\<close>, \<open>this.changes\<close> after an UPDATE or DELETE. A statement can
  also fail for reasons outside the tables (a locked or unwritable file); the argument
  \<open>fault\<close> of each statement is that failure, \<open>None\<close> when the store works.
\<close>

type_synonym fault = "string option"

text \<open>The aggregate MAX over a column: NULL (\<open>None\<close>) on no rows.\<close>

fun sql_max :: "int list \<Rightarrow> int option" where
  "sql_max [] = None"
| "sql_max (x # xs) = Some (fold max xs x)"

text \<open>
  INSERT INTO tasks (title, description, position)
  SELECT ?, ?, COALESCE(MAX(position) + 1, 0) FROM tasks.
  The id is AUTOINCREMENT: one more than the largest id the table ever held.
  The result carries \<open>lastID\<close>.
\<close>

definition insert_task :: "fault \<Rightarrow> string \<Rightarrow> string option \<Rightarrow> nat \<Rightarrow> db \<Rightarrow> string + (int \<times> db)" where
  "insert_task fault ttl descr now d =
     (case fault of
        Some msg \<Rightarrow> Inl msg
      | None \<Rightarrow>
          (let new_id = fold max (map t_id (tasks d)) (sqlite_sequence d) + 1;
               pos = (case sql_max (map t_position (tasks d)) of
                        None \<Rightarrow> 0
                      | Some m \<Rightarrow> m + 1);
               row = \<lparr>t_id = new_id, t_title = ttl, t_description = descr, t_done = 0,
                      t_position = pos, t_created_at = now\<rparr>
           in Inr (new_id, d\<lparr>tasks := tasks d @ [row], sqlite_sequence := new_id\<rparr>)))"

text \<open>
  INSERT INTO task_relationships (parent_id, child_id) VALUES (?, ?), ..., (?, ?).
  The PRIMARY KEY is a unique index over both columns, and in a unique index of SQLite
  a row with a NULL equals no other row: the statement fails when two rows without
  NULL are the same pair. With foreign keys enforced it also fails when a value that
  is not NULL is not the id of a task. The statement is atomic: when it fails it
  inserts nothing.
\<close>

definition known_task :: "db \<Rightarrow> int \<Rightarrow> bool" where
  "known_task d i = (i \<in> set (map t_id (tasks d)))"

definition no_null :: "relationship \<Rightarrow> bool" where
  "no_null r = (fst r \<noteq> SNull \<and> snd r \<noteq> SNull)"

fun references_task :: "db \<Rightarrow> sqlval \<Rightarrow> bool" where
  "references_task d SNull = True"
| "references_task d (SInt i) = known_task d i"
| "references_task d v = False"

definition insert_relationships :: "fault \<Rightarrow> relationship list \<Rightarrow> db \<Rightarrow> string + db" where
  "insert_relationships fault rows d =
     (case fault of
        Some msg \<Rightarrow> Inl msg
      | None \<Rightarrow>
          if \<not> distinct (filter no_null (task_relationships d @ rows)) then
            Inl ''SQLITE_CONSTRAINT: UNIQUE constraint failed: task_relationships.parent_id, task_relationships.child_id''
          else if foreign_keys d \<and> \<not> list_all (\<lambda>r. references_task d (fst r) \<and> references_task d (snd r)) rows then
            Inl ''SQLITE_CONSTRAINT: FOREIGN KEY constraint failed''
          else
            Inr (d\<lparr>task_relationships := task_relationships d @ rows\<rparr>))"

text \<open>
  UPDATE tasks SET position = ? WHERE id = ?. The rows updated are those whose id
  equals the value bound. The result carries \<open>changes\<close>.
\<close>

definition update_position :: "fault \<Rightarrow> int \<Rightarrow> sqlval \<Rightarrow> db \<Rightarrow> string + (nat \<times> db)" where
  "update_position fault index v d =
     (case fault of
        Some msg \<Rightarrow> Inl msg
      | None \<Rightarrow>
          Inr (length (filter (\<lambda>t. SInt (t_id t) = v) (tasks d)),
               d\<lparr>tasks := map (\<lambda>t. if SInt (t_id t) = v then t\<lparr>t_position := index\<rparr> else t) (tasks d)\<rparr>))"

text \<open>UPDATE tasks SET done = ? WHERE id = ?. The result carries \<open>changes\<close>.\<close>

definition update_done :: "fault \<Rightarrow> int \<Rightarrow> int \<Rightarrow> db \<Rightarrow> string + (nat \<times> db)" where
  "update_done fault v taskId d =
     (case fault of
        Some msg \<Rightarrow> Inl msg
      | None \<Rightarrow>
          Inr (length (filter (\<lambda>t. t_id t = taskId) (tasks d)),
               d\<lparr>tasks := map (\<lambda>t. if t_id t = taskId then t\<lparr>t_done := v\<rparr> else t) (tasks d)\<rparr>))"

text \<open>
  DELETE FROM tasks WHERE id = ?. The relationship rows that name the deleted task go
  with it (ON DELETE CASCADE) on a connection that enforces foreign keys, and stay on
  one that does not. The result carries \<open>changes\<close>, which counts the rows of
  \<open>tasks\<close> only.
\<close>

definition delete_task :: "fault \<Rightarrow> int \<Rightarrow> db \<Rightarrow> string + (nat \<times> db)" where
  "delete_task fault taskId d =
     (case fault of
        Some msg \<Rightarrow> Inl msg
      | None \<Rightarrow>
          (let n = length (filter (\<lambda>t. t_id t = taskId) (tasks d));
               rels = (if foreign_keys d \<and> 0 < n
                       then filter (\<lambda>r. fst r \<noteq> SInt taskId \<and> snd r \<noteq> SInt taskId) (task_relationships d)
                       else task_relationships d)
           in Inr (n, d\<lparr>tasks := filter (\<lambda>t. t_id t \<noteq> taskId) (tasks d), task_relationships := rels\<rparr>)))"

section \<open>GET /tasks\<close>

text \<open>
  The row of the SELECT for one task: its columns and the two aggregates, each the
  GROUP_CONCAT text or NULL.
\<close>

record task_agg =
  a_task :: task
  a_child_tasks :: "string option"
  a_parent_tasks :: "string option"

text \<open>
  \<open>tasks t LEFT JOIN task_relationships pr ON t.id = pr.parent_id\<close>: the child_id of
  every relationship row whose parent_id equals the id of the task, or a single NULL
  when there is none; likewise for \<open>cr\<close> with the roles exchanged. SQLite finds the
  rows through an index, so they come in the order of the index. The group of a task
  is every combination of a \<open>pr\<close> row with a \<open>cr\<close> row. Ids are unique in
  \<open>tasks\<close>, so GROUP BY t.id makes one group per row of \<open>tasks\<close>.
\<close>

definition pr_child_ids :: "db \<Rightarrow> task \<Rightarrow> sqlval list" where
  "pr_child_ids d t =
     (case index_order (map snd (filter (\<lambda>r. fst r = SInt (t_id t)) (task_relationships d))) of
        [] \<Rightarrow> [SNull]
      | cs \<Rightarrow> cs)"

definition cr_parent_ids :: "db \<Rightarrow> task \<Rightarrow> sqlval list" where
  "cr_parent_ids d t =
     (case index_order (map fst (filter (\<lambda>r. snd r = SInt (t_id t)) (task_relationships d))) of
        [] \<Rightarrow> [SNull]
      | ps \<Rightarrow> ps)"

definition joined_group :: "db \<Rightarrow> task \<Rightarrow> (sqlval \<times> sqlval) list" where
  "joined_group d t = List.product (pr_child_ids d t) (cr_parent_ids d t)"

text \<open>
  The text of a value inside GROUP_CONCAT: an integer in decimal, a text as it is, a
  real as SQLite renders it.
\<close>

fun cell_text :: "runtime \<Rightarrow> sqlval \<Rightarrow> string" where
  "cell_text rt (SInt i) = int_text i"
| "cell_text rt (SText s) = s"
| "cell_text rt v = RealText rt v"

text \<open>
  GROUP_CONCAT(DISTINCT x): the distinct values of x that are not NULL, each kept
  where it first occurs, joined by commas; NULL when there is no such value.
\<close>

definition group_concat_distinct :: "runtime \<Rightarrow> sqlval list \<Rightarrow> string option" where
  "group_concat_distinct rt vs =
     (case rev (remdups (rev (filter (\<lambda>v. v \<noteq> SNull) vs))) of
        [] \<Rightarrow> None
      | cs \<Rightarrow> Some (join_comma (map (cell_text rt) cs)))"

text \<open>
  ORDER BY t.position: the groups sorted by position; rows of equal position keep the
  order of the table.
\<close>

definition select_tasks :: "runtime \<Rightarrow> db \<Rightarrow> task_agg list" where
  "select_tasks rt d =
     sort_key (\<lambda>a. t_position (a_task a))
       (map (\<lambda>t. \<lparr>a_task = t,
                   a_child_tasks = group_concat_distinct rt (map fst (joined_group d t)),
                   a_parent_tasks = group_concat_distinct rt (map snd (joined_group d t))\<rparr>)
            (tasks d))"

text \<open>
  A task of the response: the columns of the row, and the two texts split at the
  commas and mapped through \<open>Number\<close>, or the empty array for NULL or the empty text.
\<close>

record task_view =
  v_task :: task
  child_tasks :: "jsnum list"
  parent_tasks :: "jsnum list"

definition ids_of_text :: "runtime \<Rightarrow> string option \<Rightarrow> jsnum list" where
  "ids_of_text rt txt =
     (case txt of
        None \<Rightarrow> []
      | Some s \<Rightarrow> if s = [] then [] else map (Number rt) (split_comma s))"

definition task_view_of :: "runtime \<Rightarrow> task_agg \<Rightarrow> task_view" where
  "task_view_of rt a =
     \<lparr>v_task = a_task a,
      child_tasks = ids_of_text rt (a_child_tasks a),
      parent_tasks = ids_of_text rt (a_parent_tasks a)\<rparr>"

section \<open>HTTP responses\<close>

datatype body =
  ErrorBody string
| MessageBody string
| CreatedBody int string "string option"
| TasksBody "task_view list"

record response =
  status :: nat
  body :: body

definition get_tasks :: "runtime \<Rightarrow> fault \<Rightarrow> db \<Rightarrow> response" where
  "get_tasks rt fault d =
     (case fault of
        Some msg \<Rightarrow> \<lparr>status = 500, body = ErrorBody msg\<rparr>
      | None \<Rightarrow> \<lparr>status = 200, body = TasksBody (map (task_view_of rt) (select_tasks rt d))\<rparr>)"

section \<open>POST /tasks\<close>

text \<open>
  The fields the handler destructures from \<open>req.body\<close>: \<open>title\<close> and
  \<open>description\<close> strings, \<open>parentTasks\<close> and \<open>childTasks\<close> arrays; \<open>None\<close> is a
  field the body does not have. The elements of the arrays are whatever JSON values
  the body holds: the handler binds them unchecked. \<open>parentTasks\<close> and
  \<open>childTasks\<close> default to the empty list. The second statement is run from the
  callback of the first, and the response is sent from the callback of the last
  statement run.
\<close>

record post_body =
  title :: "string option"
  description :: "string option"
  parentTasks :: "json list option"
  childTasks :: "json list option"

definition list_or_empty :: "json list option \<Rightarrow> json list" where
  "list_or_empty xs = (case xs of None \<Rightarrow> [] | Some ys \<Rightarrow> ys)"

definition post_tasks :: "runtime \<Rightarrow> fault \<Rightarrow> fault \<Rightarrow> nat \<Rightarrow> post_body \<Rightarrow> db \<Rightarrow> response \<times> db" where
  "post_tasks rt fault1 fault2 now b d =
     (let parents = list_or_empty (parentTasks b);
          children = list_or_empty (childTasks b)
      in case title b of
           None \<Rightarrow> (\<lparr>status = 400, body = ErrorBody ''Title is required''\<rparr>, d)
         | Some ttl \<Rightarrow>
             if ttl = [] then (\<lparr>status = 400, body = ErrorBody ''Title is required''\<rparr>, d)
             else
               (case insert_task fault1 ttl (description b) now d of
                  Inl msg \<Rightarrow> (\<lparr>status = 500, body = ErrorBody msg\<rparr>, d)
                | Inr (taskId, d1) \<Rightarrow>
                    (let relationships = map (\<lambda>parentId. (store_value rt parentId, SInt taskId)) parents
                                       @ map (\<lambda>childId. (SInt taskId, store_value rt childId)) children
                     in if 0 < length relationships then
                          (case insert_relationships fault2 relationships d1 of
                             Inl msg \<Rightarrow> (\<lparr>status = 500, body = ErrorBody msg\<rparr>, d1)
                           | Inr d2 \<Rightarrow>
                               (\<lparr>status = 200, body = CreatedBody taskId ttl (description b)\<rparr>, d2))
                        else (\<lparr>status = 200, body = CreatedBody taskId ttl (description b)\<rparr>, d1))))"

section \<open>PUT /tasks/reorder\<close>

text \<open>
  \<open>db.run\<close> only queues its statement: the statement runs, and its callback is called,
  after the handler has returned. So the handler first queues one UPDATE per element
  of \<open>tasks\<close>, with the element's index as position, then reads \<open>errorOccurred\<close> and
  sends the response; the queued statements run afterwards, and each callback sets
  \<open>errorOccurred\<close> when its statement failed.

  The handler queues the statements outside \<open>db.serialize\<close>, so the order in which
  they run is not that of the queue: any order can occur. \<open>scheduled\<close> is the order
  taken: at each step the statement at place \<open>c mod n\<close> of the \<open>n\<close> still pending runs
  next, \<open>c\<close> being the next of \<open>choices\<close> (0 when they are used up). Every order of
  the queue is \<open>scheduled choices\<close> of it for some \<open>choices\<close>.
\<close>

function scheduled :: "nat list \<Rightarrow> 'a list \<Rightarrow> 'a list" where
  "scheduled choices [] = []"
| "scheduled choices (x # xs) =
     (let k = (case choices of [] \<Rightarrow> 0 | c # cs \<Rightarrow> c mod Suc (length xs))
      in ((x # xs) ! k) # scheduled (tl choices) (take k (x # xs) @ drop (Suc k) (x # xs)))"
  by pat_completeness auto
termination
proof (relation "measure (\<lambda>(choices, xs). length xs)")
  show "wf (measure (\<lambda>(choices, xs). length xs))" by simp
next
  fix choices :: "nat list" and x :: 'a and xs :: "'a list" and k
  assume k: "k = (case choices of [] \<Rightarrow> 0 | c # cs \<Rightarrow> c mod Suc (length xs))"
  have "k \<le> length xs"
    unfolding k by (cases choices) (simp_all add: less_Suc_eq_le [symmetric])
  then show "((tl choices, take k (x # xs) @ drop (Suc k) (x # xs)), (choices, x # xs))
             \<in> measure (\<lambda>(choices, xs). length xs)"
    by (simp add: min_def)
qed

text \<open>
  \<open>run_queued\<close> runs statements one after another: the database and the value of
  \<open>errorOccurred\<close> after the statements and their callbacks; \<open>faults i\<close> is the
  fault of the statement queued for index \<open>i\<close>.
\<close>

fun run_queued :: "(nat \<Rightarrow> fault) \<Rightarrow> (nat \<times> sqlval) list \<Rightarrow> bool \<times> db \<Rightarrow> bool \<times> db" where
  "run_queued faults [] (errorOccurred, d) = (errorOccurred, d)"
| "run_queued faults ((index, taskId) # queue) (errorOccurred, d) =
     (case update_position (faults index) (int index) taskId d of
        Inl msg \<Rightarrow> run_queued faults queue (True, d)
      | Inr (n, d') \<Rightarrow> run_queued faults queue (errorOccurred, d'))"

text \<open>
  The body's field \<open>tasks\<close>: \<open>None\<close> when it is missing or is not an array, else the
  elements of the array, whatever JSON values they are. The result is the response
  and the database once the queued statements have run.
\<close>

definition put_tasks_reorder ::
  "runtime \<Rightarrow> (nat \<Rightarrow> fault) \<Rightarrow> nat list \<Rightarrow> json list option \<Rightarrow> db \<Rightarrow> response \<times> db" where
  "put_tasks_reorder rt faults choices tasks_field d =
     (case tasks_field of
        None \<Rightarrow> (\<lparr>status = 400, body = ErrorBody ''Tasks must be an array''\<rparr>, d)
      | Some ts \<Rightarrow>
          (let errorOccurred = False;
               queue = zip [0 ..< length ts] (map (store_value rt) ts);
               res = (if errorOccurred
                      then \<lparr>status = 500, body = ErrorBody ''Error, try again''\<rparr>
                      else \<lparr>status = 200, body = MessageBody ''Tasks reordered successfully''\<rparr>)
           in (res, snd (run_queued faults (scheduled choices queue) (errorOccurred, d)))))"

section \<open>PUT /tasks/:id\<close>

text \<open>
  \<open>taskId\<close> is the id in the path, \<open>done_field\<close> the body's field \<open>done\<close>. The value
  bound is \<open>done ? 1 : 0\<close>; the label of the message is chosen by \<open>done == 1\<close>.
\<close>

definition put_task :: "runtime \<Rightarrow> fault \<Rightarrow> int \<Rightarrow> json option \<Rightarrow> db \<Rightarrow> response \<times> db" where
  "put_task rt fault taskId done_field d =
     (case update_done fault (if ToBoolean done_field then 1 else 0) taskId d of
        Inl msg \<Rightarrow> (\<lparr>status = 500, body = ErrorBody msg\<rparr>, d)
      | Inr (n, d') \<Rightarrow>
          if n = 0 then (\<lparr>status = 404, body = ErrorBody ''Task not found''\<rparr>, d')
          else (\<lparr>status = 200,
                 body = MessageBody (''Status task '' @ int_text taskId @ '' berhasil diubah: '' @
                          (if loose_equals_1 rt done_field then ''Selesai'' else ''Belum Selesai''))\<rparr>, d'))"

section \<open>DELETE /tasks/:id\<close>

definition delete_tasks :: "fault \<Rightarrow> int \<Rightarrow> db \<Rightarrow> response \<times> db" where
  "delete_tasks fault taskId d =
     (case delete_task fault taskId d of
        Inl msg \<Rightarrow> (\<lparr>status = 500, body = ErrorBody msg\<rparr>, d)
      | Inr (n, d') \<Rightarrow>
          if n = 0 then (\<lparr>status = 404, body = ErrorBody ''Task not found''\<rparr>, d')
          else (\<lparr>status = 200, body = MessageBody ''Task deleted successfully''\<rparr>, d'))"

section \<open>The states the endpoints reach\<close>

text \<open>
  A database is reachable when a sequence of requests leads to it from the database
  as first opened. GET /tasks writes nothing.
\<close>

inductive reachable :: "db \<Rightarrow> bool" where
  reachable_open: "reachable open_db"
| reachable_post: "reachable d \<Longrightarrow> reachable (snd (post_tasks rt fault1 fault2 now b d))"
| reachable_reorder: "reachable d \<Longrightarrow> reachable (snd (put_tasks_reorder rt faults choices tasks_field d))"
| reachable_put: "reachable d \<Longrightarrow> reachable (snd (put_task rt fault taskId done_field d))"
| reachable_delete: "reachable d \<Longrightarrow> reachable (snd (delete_tasks fault taskId d))"

section \<open>Ids that JavaScript numbers hold exactly\<close>

text \<open>
  A cell is safe when it is NULL or an integer of magnitude at most \<open>2 ^ 53\<close>, the
  integers that JavaScript numbers hold exactly.
\<close>

fun safe_id :: "sqlval \<Rightarrow> bool" where
  "safe_id SNull = True"
| "safe_id (SInt i) = (\<bar>i\<bar> \<le> 2 ^ 53)"
| "safe_id v = False"

definition safe_ids :: "db \<Rightarrow> bool" where
  "safe_ids d = list_all (\<lambda>r. safe_id (fst r) \<and> safe_id (snd r)) (task_relationships d)"

text \<open>The integer of an integer cell.\<close>

definition sql_int :: "sqlval \<Rightarrow> int" where
  "sql_int v = \<lfloor>sql_number v\<rfloor>"


text \<open>
  The position each task is left with by a list of UPDATEs that run without fault on
  pairwise different values: that of the statement whose value equals its id.
\<close>

definition repositioned :: "(nat \<times> sqlval) list \<Rightarrow> task \<Rightarrow> task" where
  "repositioned q t =
     (case map_of (map (\<lambda>p. (snd p, fst p)) q) (SInt (t_id t)) of
        None \<Rightarrow> t
      | Some i \<Rightarrow> t\<lparr>t_position := int i\<rparr>)"

section \<open>Example data\<close>

text \<open>
  Two tasks as two POST requests on the fresh database create them, the second with
  \<open>parentTasks = [1]\<close>; and a runtime for closed examples, none of which reaches its
  conversions.
\<close>

definition task_a :: task where
  "task_a = \<lparr>t_id = 1, t_title = ''a'', t_description = None, t_done = 0, t_position = 0, t_created_at = 0\<rparr>"

definition task_b :: task where
  "task_b = \<lparr>t_id = 2, t_title = ''b'', t_description = None, t_done = 0, t_position = 1, t_created_at = 0\<rparr>"

definition body_a :: post_body where
  "body_a = \<lparr>title = Some ''a'', description = None, parentTasks = None, childTasks = None\<rparr>"

definition body_b :: post_body where
  "body_b = \<lparr>title = Some ''b'', description = None, parentTasks = Some [JNum (Num 1)], childTasks = None\<rparr>"

definition db_a :: db where
  "db_a = \<lparr>tasks = [task_a], task_relationships = [], sqlite_sequence = 1, foreign_keys = False\<rparr>"

definition db_ab :: db where
  "db_ab = \<lparr>tasks = [task_a, task_b], task_relationships = [(SInt 1, SInt 2)], sqlite_sequence = 2, foreign_keys = False\<rparr>"

definition rt_example :: runtime where
  "rt_example = \<lparr>StringToNumber = (\<lambda>s. NaN), NumberToString = (\<lambda>n. []), ObjectText = (\<lambda>v. []),
                 NumericText = (\<lambda>s. SText s), RealText = (\<lambda>v. [])\<rparr>"

section \<open>Facts about the statements and the text conversions\<close>

lemma sql_max_Max: "xs \<noteq> [] \<Longrightarrow> sql_max xs = Some (Max (set xs))"
  by (cases xs) (simp_all add: Max.set_eq_fold [symmetric])

lemma insert_task_ok:
  "insert_task None ttl descr now d = Inr (i, d') \<Longrightarrow>
   \<exists>row. tasks d' = tasks d @ [row] \<and> t_id row = i \<and> t_title row = ttl \<and> t_description row = descr
     \<and> t_position row = (if tasks d = [] then 0 else Max (set (map t_position (tasks d))) + 1)
     \<and> task_relationships d' = task_relationships d \<and> foreign_keys d' = foreign_keys d"
  by (cases "tasks d = []") (auto simp: insert_task_def Let_def sql_max_Max)

lemma insert_relationships_ok:
  "insert_relationships fault rows d = Inr d' \<Longrightarrow>
   task_relationships d' = task_relationships d @ rows \<and> tasks d' = tasks d
   \<and> distinct (filter no_null (task_relationships d @ rows))"
  by (auto simp: insert_relationships_def split: option.splits if_splits)

lemma known_task_filter: "known_task d i \<longleftrightarrow> filter (\<lambda>t. t_id t = i) (tasks d) \<noteq> []"
  by (auto simp: known_task_def filter_empty_conv)

lemma digit_char_val: "k < 10 \<Longrightarrow> digit_val (digit_char k) = k \<and> is_digit (digit_char k)
    \<and> digit_char k \<noteq> CHR '','' \<and> CHR '','' \<noteq> digit_char k"
proof -
  assume "k < 10"
  then have "k \<in> {0, 1, 2, 3, 4, 5, 6, 7, 8, 9}" by auto
  then show ?thesis
    by (auto simp: digit_char_def digit_val_def is_digit_def)
qed

lemma nat_of_digits_snoc: "nat_of_digits (cs @ [c]) = 10 * nat_of_digits cs + digit_val c"
  by (simp add: nat_of_digits_def)

lemma nat_text_roundtrip: "nat_of_digits (nat_text n) = n"
proof (induction n rule: nat_text.induct)
  case (1 n)
  show ?case
  proof (cases "n < 10")
    case True
    then show ?thesis
      by (subst nat_text.simps) (simp add: nat_of_digits_def digit_char_val)
  next
    case False
    with 1 show ?thesis
      by (subst nat_text.simps) (simp add: nat_of_digits_snoc digit_char_val)
  qed
qed

lemma nat_text_digits: "nat_text n \<noteq> [] \<and> list_all is_digit (nat_text n) \<and> CHR '','' \<notin> set (nat_text n)"
proof (induction n rule: nat_text.induct)
  case (1 n)
  show ?case
  proof (cases "n < 10")
    case True
    then show ?thesis
      by (subst (1 2 3) nat_text.simps) (simp add: digit_char_val)
  next
    case False
    with 1 show ?thesis
      by (subst (1 2 3) nat_text.simps) (simp add: digit_char_val)
  qed
qed

lemma is_digit_not_minus: "is_digit c \<Longrightarrow> c \<noteq> CHR ''-''"
  by (auto simp: is_digit_def)

lemma int_text_roundtrip: "int_of_text (int_text i) = Some i"
proof (cases "i < 0")
  case True
  then show ?thesis
    by (simp add: int_text_def int_of_text_def nat_text_digits nat_text_roundtrip)
next
  case False
  obtain c cs where cs: "nat_text (nat i) = c # cs"
    using nat_text_digits [of "nat i"] by (cases "nat_text (nat i)") auto
  have "is_digit c" using nat_text_digits [of "nat i"] cs by simp
  then have "c \<noteq> CHR ''-''" by (rule is_digit_not_minus)
  with False cs show ?thesis
    using nat_text_digits [of "nat i"] nat_text_roundtrip [of "nat i"]
    by (simp add: int_text_def int_of_text_def)
qed

lemma int_text_no_comma: "CHR '','' \<notin> set (int_text i) \<and> int_text i \<noteq> []"
  by (simp add: int_text_def nat_text_digits)

lemma bit_length_le: "a < 2 ^ k \<Longrightarrow> bit_length a \<le> k"
proof (induction k arbitrary: a)
  case 0
  then show ?case by (simp add: bit_length.simps)
next
  case (Suc k)
  show ?case
  proof (cases "a = 0")
    case True
    then show ?thesis by (simp add: bit_length.simps)
  next
    case False
    from Suc.prems have "a div 2 < 2 ^ k" by simp
    from Suc.IH [OF this] False show ?thesis
      by (subst bit_length.simps) simp
  qed
qed

lemma round_to_double_exact: "\<bar>i\<bar> \<le> 2 ^ 53 \<Longrightarrow> round_to_double i = i"
proof -
  assume b: "\<bar>i\<bar> \<le> 2 ^ 53"
  let ?a = "nat \<bar>i\<bar>"
  let ?e = "bit_length ?a - 53"
  have a: "?a \<le> 2 ^ 53" using b by (simp add: nat_le_iff)
  have m: "(if 2 ^ ?e < 2 * (?a mod 2 ^ ?e) \<or> (2 * (?a mod 2 ^ ?e) = 2 ^ ?e \<and> odd (?a div 2 ^ ?e))
            then ?a div 2 ^ ?e + 1 else ?a div 2 ^ ?e) * 2 ^ ?e = ?a"
  proof (cases "?a < 2 ^ 53")
    case True
    from bit_length_le [OF this] have "?e = 0" by simp
    then show ?thesis by simp
  next
    case False
    with a have e: "?a = 2 ^ 53" by simp
    then have "?a < 2 ^ 54" by simp
    from bit_length_le [OF this] have "?e = 0 \<or> ?e = 1" by arith
    then show ?thesis
    proof
      assume "?e = 0" then show ?thesis by simp
    next
      assume "?e = 1" then show ?thesis unfolding e by simp
    qed
  qed
  show ?thesis
    unfolding round_to_double_def Let_def m by simp
qed

lemma Number_int_text: "\<bar>i\<bar> \<le> 2 ^ 53 \<Longrightarrow> Number rt (int_text i) = Num (of_int i)"
proof -
  assume b: "\<bar>i\<bar> \<le> 2 ^ 53"
  then have "\<bar>i\<bar> < 10 ^ 20" by simp
  with b show ?thesis
    by (simp add: Number_def int_text_roundtrip round_to_double_exact)
qed

lemma split_comma_plain: "CHR '','' \<notin> set s \<Longrightarrow> split_comma s = [s]"
  by (induction s) auto

lemma split_comma_append:
  "CHR '','' \<notin> set s \<Longrightarrow> split_comma (s @ CHR '','' # r) = s # split_comma r"
  by (induction s) auto

lemma split_join_comma:
  "ss \<noteq> [] \<Longrightarrow> \<forall>s \<in> set ss. CHR '','' \<notin> set s \<Longrightarrow> split_comma (join_comma ss) = ss"
  by (induction ss rule: join_comma.induct) (simp_all add: split_comma_plain split_comma_append)

lemma join_comma_nonempty: "ss \<noteq> [] \<Longrightarrow> \<forall>s \<in> set ss. s \<noteq> [] \<Longrightarrow> join_comma ss \<noteq> []"
  by (induction ss rule: join_comma.induct) simp_all

lemma bit_length_eq: "2 ^ k \<le> a \<Longrightarrow> a < 2 ^ Suc k \<Longrightarrow> bit_length a = Suc k"
proof (induction k arbitrary: a)
  case 0
  then have "a = 1" by simp
  then show ?case by (simp add: bit_length.simps)
next
  case (Suc k)
  then have "2 ^ k \<le> a div 2" "a div 2 < 2 ^ Suc k" "a \<noteq> 0" by auto
  with Suc.IH [of "a div 2"] show ?case
    by (subst bit_length.simps) simp
qed

lemma round_example: "round_to_double 9007199254740993 = 9007199254740992"
proof -
  have "bit_length 9007199254740993 = Suc 53"
    by (rule bit_length_eq) simp_all
  then show ?thesis
    by (simp add: round_to_double_def Let_def)
qed

section \<open>Facts about the handlers\<close>

lemma set_insert_sorted: "set (insert_sorted v ws) = insert v (set ws)"
  by (induction ws) auto

lemma set_index_order: "set (index_order vs) = set vs"
  by (induction vs) (simp_all add: index_order_def set_insert_sorted)

lemma pr_child_ids_set:
  "pr_child_ids d t \<noteq> []
   \<and> set (pr_child_ids d t) - {SNull} = {v. v \<noteq> SNull \<and> (SInt (t_id t), v) \<in> set (task_relationships d)}"
proof -
  let ?cs = "index_order (map snd (filter (\<lambda>r. fst r = SInt (t_id t)) (task_relationships d)))"
  have s: "set ?cs = {v. (SInt (t_id t), v) \<in> set (task_relationships d)}"
    unfolding set_index_order by force
  show ?thesis
  proof (cases ?cs)
    case Nil
    with s have "{v. (SInt (t_id t), v) \<in> set (task_relationships d)} = {}" by simp
    with Nil show ?thesis by (auto simp: pr_child_ids_def)
  next
    case (Cons c cs)
    then have "pr_child_ids d t = ?cs" by (simp add: pr_child_ids_def)
    with s Cons show ?thesis by auto
  qed
qed

lemma cr_parent_ids_set:
  "cr_parent_ids d t \<noteq> []
   \<and> set (cr_parent_ids d t) - {SNull} = {v. v \<noteq> SNull \<and> (v, SInt (t_id t)) \<in> set (task_relationships d)}"
proof -
  let ?ps = "index_order (map fst (filter (\<lambda>r. snd r = SInt (t_id t)) (task_relationships d)))"
  have s: "set ?ps = {v. (v, SInt (t_id t)) \<in> set (task_relationships d)}"
    unfolding set_index_order by force
  show ?thesis
  proof (cases ?ps)
    case Nil
    with s have "{v. (v, SInt (t_id t)) \<in> set (task_relationships d)} = {}" by simp
    with Nil show ?thesis by (auto simp: cr_parent_ids_def)
  next
    case (Cons c cs)
    then have "cr_parent_ids d t = ?ps" by (simp add: cr_parent_ids_def)
    with s Cons show ?thesis by auto
  qed
qed

lemma joined_group_children:
  "set (filter (\<lambda>v. v \<noteq> SNull) (map fst (joined_group d t)))
   = {v. v \<noteq> SNull \<and> (SInt (t_id t), v) \<in> set (task_relationships d)}"
proof -
  have "set (map fst (joined_group d t)) = set (pr_child_ids d t)"
    using cr_parent_ids_set [of d t] by (cases "cr_parent_ids d t") (force simp: joined_group_def)+
  then show ?thesis
    using pr_child_ids_set [of d t] by auto
qed

lemma joined_group_parents:
  "set (filter (\<lambda>v. v \<noteq> SNull) (map snd (joined_group d t)))
   = {v. v \<noteq> SNull \<and> (v, SInt (t_id t)) \<in> set (task_relationships d)}"
proof -
  have "set (map snd (joined_group d t)) = set (cr_parent_ids d t)"
    using pr_child_ids_set [of d t] by (cases "pr_child_ids d t") (force simp: joined_group_def)+
  then show ?thesis
    using cr_parent_ids_set [of d t] by auto
qed

lemma select_tasks_set:
  "a \<in> set (select_tasks rt d) \<Longrightarrow>
   a_task a \<in> set (tasks d)
   \<and> a_child_tasks a = group_concat_distinct rt (map fst (joined_group d (a_task a)))
   \<and> a_parent_tasks a = group_concat_distinct rt (map snd (joined_group d (a_task a)))"
  by (auto simp: select_tasks_def)

lemma select_tasks_tasks: "set (map a_task (select_tasks rt d)) = set (tasks d)"
  by (force simp: select_tasks_def)

lemma safe_not_null_eq: "safe_id v \<Longrightarrow> v \<noteq> SNull \<Longrightarrow> SInt (sql_int v) = v"
  by (cases v) (simp_all add: sql_int_def)

lemma safe_not_null_bound: "safe_id v \<Longrightarrow> v \<noteq> SNull \<Longrightarrow> \<bar>sql_int v\<bar> \<le> 2 ^ 53"
  by (cases v) (simp_all add: sql_int_def)

lemma ids_of_safe_cells:
  assumes "\<forall>v \<in> set cs. safe_id v \<and> v \<noteq> SNull"
  shows "ids_of_text rt (case cs of [] \<Rightarrow> None | c # cs' \<Rightarrow> Some (join_comma (map (cell_text rt) (c # cs'))))
         = map (\<lambda>v. Num (of_int (sql_int v))) cs"
proof (cases cs)
  case Nil
  then show ?thesis by (simp add: ids_of_text_def)
next
  case (Cons c cs')
  have ct: "map (cell_text rt) cs = map (\<lambda>v. int_text (sql_int v)) cs"
  proof (rule map_cong [OF refl])
    fix v assume "v \<in> set cs"
    with assms have "safe_id v" "v \<noteq> SNull" by auto
    then have "SInt (sql_int v) = v" by (rule safe_not_null_eq)
    then have "cell_text rt v = cell_text rt (SInt (sql_int v))" by simp
    then show "cell_text rt v = int_text (sql_int v)" by simp
  qed
  let ?ss = "map (\<lambda>v. int_text (sql_int v)) cs"
  have ne: "join_comma ?ss \<noteq> []"
    using Cons by (intro join_comma_nonempty) (auto simp: int_text_no_comma)
  have sp: "split_comma (join_comma ?ss) = ?ss"
    using Cons by (intro split_join_comma) (auto simp: int_text_no_comma)
  have "\<forall>v \<in> set cs. Number rt (int_text (sql_int v)) = Num (of_int (sql_int v))"
  proof
    fix v assume "v \<in> set cs"
    with assms have "safe_id v" "v \<noteq> SNull" by auto
    then have "\<bar>sql_int v\<bar> \<le> 2 ^ 53" by (rule safe_not_null_bound)
    then show "Number rt (int_text (sql_int v)) = Num (of_int (sql_int v))" by (rule Number_int_text)
  qed
  then have nm: "map (Number rt) ?ss = map (\<lambda>v. Num (of_int (sql_int v))) cs"
    by simp
  have "ids_of_text rt (Some (join_comma (map (cell_text rt) cs))) = map (\<lambda>v. Num (of_int (sql_int v))) cs"
    unfolding ct using ne sp nm by (simp add: ids_of_text_def)
  with Cons show ?thesis by simp
qed

lemma ids_of_group_concat:
  assumes "\<forall>v \<in> set vs. safe_id v"
  shows "ids_of_text rt (group_concat_distinct rt vs) =
         map (\<lambda>i. Num (of_int i)) (map sql_int (rev (remdups (rev (filter (\<lambda>v. v \<noteq> SNull) vs)))))"
proof -
  let ?cs = "rev (remdups (rev (filter (\<lambda>v. v \<noteq> SNull) vs)))"
  have "\<forall>v \<in> set ?cs. safe_id v \<and> v \<noteq> SNull" using assms by auto
  from ids_of_safe_cells [OF this, of rt] show ?thesis
    by (simp add: group_concat_distinct_def comp_def split: list.splits)
qed

lemma sql_int_distinct:
  "\<forall>v \<in> set cs. safe_id v \<and> v \<noteq> SNull \<Longrightarrow> distinct cs \<Longrightarrow> distinct (map sql_int cs)"
proof -
  assume a: "\<forall>v \<in> set cs. safe_id v \<and> v \<noteq> SNull" and d: "distinct cs"
  have "inj_on sql_int (set cs)"
  proof (rule inj_on_inverseI [where g = SInt])
    fix v assume "v \<in> set cs"
    with a have "safe_id v" "v \<noteq> SNull" by auto
    then show "SInt (sql_int v) = v" by (rule safe_not_null_eq)
  qed
  with d show ?thesis by (simp add: distinct_map)
qed

lemma sql_int_set:
  "\<forall>v \<in> set cs. safe_id v \<and> v \<noteq> SNull \<Longrightarrow> set (map sql_int cs) = {c. SInt c \<in> set cs}"
proof (intro set_eqI iffI)
  fix c
  assume a: "\<forall>v \<in> set cs. safe_id v \<and> v \<noteq> SNull" and "c \<in> set (map sql_int cs)"
  then obtain v where v: "v \<in> set cs" "c = sql_int v" by auto
  with a have "safe_id v" "v \<noteq> SNull" by auto
  then have "SInt (sql_int v) = v" by (rule safe_not_null_eq)
  with v show "c \<in> {c. SInt c \<in> set cs}" by simp
next
  fix c
  assume "c \<in> {c. SInt c \<in> set cs}"
  then have "SInt c \<in> set cs" by simp
  then have "sql_int (SInt c) \<in> set (map sql_int cs)" by force
  then show "c \<in> set (map sql_int cs)" by (simp add: sql_int_def)
qed

lemma safe_ids_cells:
  "safe_ids d \<Longrightarrow> (a, b) \<in> set (task_relationships d) \<Longrightarrow> safe_id a \<and> safe_id b"
  by (auto simp: safe_ids_def list_all_iff)

lemmas store_defs = post_tasks_def insert_task_def insert_relationships_def list_or_empty_def no_null_def
  integer_affinity_text_def int_of_text_def is_digit_def nat_of_digits_def digit_val_def numeric_char_def

lemmas get_defs = get_tasks_def select_tasks_def joined_group_def pr_child_ids_def cr_parent_ids_def
  index_order_def sql_le_def group_concat_distinct_def task_view_of_def ids_of_text_def Number_def
  int_of_text_def int_text_def nat_text.simps digit_char_def is_digit_def nat_of_digits_def digit_val_def

lemma post_a: "post_tasks rt None None 0 body_a open_db = (\<lparr>status = 200, body = CreatedBody 1 ''a'' None\<rparr>, db_a)"
  by (simp add: store_defs open_db_def body_a_def db_a_def task_a_def)

lemma post_b: "post_tasks rt None None 0 body_b db_a = (\<lparr>status = 200, body = CreatedBody 2 ''b'' None\<rparr>, db_ab)"
  by (simp add: store_defs body_b_def db_a_def db_ab_def task_a_def task_b_def)

lemma scheduled_mset: "mset (scheduled choices q) = mset q"
proof (induction choices q rule: scheduled.induct)
  case (1 choices)
  show ?case by simp
next
  case (2 choices x xs)
  define k where "k = (case choices of [] \<Rightarrow> 0 | c # cs \<Rightarrow> c mod Suc (length xs))"
  have k: "k < length (x # xs)"
    unfolding k_def by (cases choices) simp_all
  have "mset (scheduled choices (x # xs))
        = {#(x # xs) ! k#} + mset (scheduled (tl choices) (take k (x # xs) @ drop (Suc k) (x # xs)))"
    by (simp add: k_def Let_def del: take_Suc_Cons drop_Suc_Cons nth_Cons_Suc)
  also have "\<dots> = {#(x # xs) ! k#} + mset (take k (x # xs) @ drop (Suc k) (x # xs))"
    using "2.IH" [of k] by (simp add: k_def)
  also have "\<dots> = mset (take k (x # xs) @ (x # xs) ! k # drop (Suc k) (x # xs))"
    by simp
  also have "\<dots> = mset (x # xs)"
    using id_take_nth_drop [OF k] by simp
  finally show ?case .
qed

lemma scheduled_set: "set (scheduled choices q) = set q"
  using scheduled_mset [of choices q] by (rule mset_eq_setD)

lemma scheduled_distinct: "distinct (map f q) \<Longrightarrow> distinct (map f (scheduled choices q))"
proof -
  assume "distinct (map f q)"
  moreover have "mset (map f (scheduled choices q)) = mset (map f q)"
    by (simp add: scheduled_mset)
  ultimately show ?thesis by (metis mset_eq_imp_distinct_iff)
qed

lemma every_order_scheduled: "mset q' = mset q \<Longrightarrow> \<exists>choices. scheduled choices q = q'"
proof (induction q' arbitrary: q)
  case Nil
  then show ?case by simp
next
  case (Cons y ys)
  then have "y \<in> set q" by (metis list.set_intros(1) mset_eq_setD)
  then obtain k where k: "k < length q" "q ! k = y" by (auto simp: in_set_conv_nth)
  then obtain x xs where q: "q = x # xs" by (cases q) auto
  let ?r = "take k q @ drop (Suc k) q"
  have "mset q = {#y#} + mset ?r"
    using id_take_nth_drop [OF k(1)] k(2) by (metis add.commute mset.simps(2) mset_append union_mset_add_mset_right add_mset_add_single)
  with Cons.prems have "mset ys = mset ?r" by simp
  from Cons.IH [OF this] obtain cs where cs: "scheduled cs ?r = ys" by blast
  have "k mod Suc (length xs) = k" using k(1) q by simp
  then have "scheduled (k # cs) q = y # ys"
    using k(2) cs unfolding q by (simp add: Let_def del: take_Suc_Cons drop_Suc_Cons nth_Cons_Suc)
  then show ?case by blast
qed


lemma run_queued_db:
  "distinct (map snd q) \<Longrightarrow>
   run_queued faults q (e, d) =
     (e \<or> \<not> list_all (\<lambda>p. faults (fst p) = None) q,
      d\<lparr>tasks := map (repositioned (filter (\<lambda>p. faults (fst p) = None) q)) (tasks d)\<rparr>)"
proof (induction q arbitrary: e d)
  case Nil
  then show ?case by (simp add: repositioned_def)
next
  case (Cons p q)
  obtain i v where p: "p = (i, v)" by (cases p)
  from Cons.prems p have v: "v \<notin> snd ` set q" and dq: "distinct (map snd q)" by auto
  let ?ok = "\<lambda>p. faults (fst p) = None"
  show ?case
  proof (cases "faults i")
    case (Some msg)
    then show ?thesis
      using Cons.IH [OF dq, of True d] p by (simp add: update_position_def)
  next
    case None
    let ?d1 = "d\<lparr>tasks := map (\<lambda>t. if SInt (t_id t) = v then t\<lparr>t_position := int i\<rparr> else t) (tasks d)\<rparr>"
    have n: "map_of (map (\<lambda>p. (snd p, fst p)) (filter ?ok q)) v = None"
      using v by (force simp: map_of_eq_None_iff)
    have "map (repositioned (filter ?ok q)) (tasks ?d1) = map (repositioned (filter ?ok (p # q))) (tasks d)"
      using p None n by (auto simp: repositioned_def split: option.splits)
    then show ?thesis
      using Cons.IH [OF dq, of e ?d1] p None by (simp add: update_position_def)
  qed
qed

lemma repositioned_order:
  "distinct (map snd q) \<Longrightarrow> mset q' = mset q \<Longrightarrow> repositioned q' = repositioned q"
proof -
  assume d: "distinct (map snd q)" and m: "mset q' = mset q"
  have d': "distinct (map snd q')"
    using d m by (metis mset_eq_imp_distinct_iff mset_map)
  have s: "set q' = set q" using m by (rule mset_eq_setD)
  have "map_of (map (\<lambda>p. (snd p, fst p)) q') = map_of (map (\<lambda>p. (snd p, fst p)) q)"
    by (rule map_of_inject_set [THEN iffD2]) (use d d' s in \<open>simp_all add: comp_def\<close>)
  then show ?thesis by (simp add: repositioned_def fun_eq_iff)
qed

lemma reorder_db:
  assumes "distinct (map (store_value rt) ts)"
  shows "put_tasks_reorder rt faults choices (Some ts) d =
     (\<lparr>status = 200, body = MessageBody ''Tasks reordered successfully''\<rparr>,
      d\<lparr>tasks := map (repositioned (filter (\<lambda>p. faults (fst p) = None)
                          (zip [0 ..< length ts] (map (store_value rt) ts)))) (tasks d)\<rparr>)
   \<and> fst (run_queued faults (scheduled choices (zip [0 ..< length ts] (map (store_value rt) ts))) (False, d))
     = (\<not> list_all (\<lambda>p. faults (fst p) = None) (zip [0 ..< length ts] (map (store_value rt) ts)))"
proof -
  let ?q = "zip [0 ..< length ts] (map (store_value rt) ts)"
  let ?ok = "\<lambda>p. faults (fst p) = None"
  have dq: "distinct (map snd ?q)" using assms by simp
  have ds: "distinct (map snd (scheduled choices ?q))" using dq by (rule scheduled_distinct)
  have dqf: "distinct (map snd (filter ?ok ?q))" using dq by (rule distinct_map_filter)
  have "mset (filter ?ok (scheduled choices ?q)) = mset (filter ?ok ?q)"
    by (simp add: scheduled_mset)
  from repositioned_order [OF dqf this]
  have r: "repositioned (filter ?ok (scheduled choices ?q)) = repositioned (filter ?ok ?q)" .
  have l: "list_all ?ok (scheduled choices ?q) = list_all ?ok ?q"
    by (simp add: list_all_iff scheduled_set)
  show ?thesis
    using run_queued_db [OF ds, of faults False d] r l
    by (simp add: put_tasks_reorder_def)
qed








lemma run_queued_relationships:
  "task_relationships (snd (run_queued faults q (e, d))) = task_relationships d"
  by (induction q arbitrary: e d) (auto simp: update_position_def split: option.splits)

lemma post_tasks_distinct_relationships:
  "distinct (filter no_null (task_relationships d)) \<Longrightarrow>
   distinct (filter no_null (task_relationships (snd (post_tasks rt fault1 fault2 now b d))))"
proof -
  assume dist: "distinct (filter no_null (task_relationships d))"
  have 1: "\<And>i d1. insert_task fault1 ttl descr now d = Inr (i, d1) \<Longrightarrow> task_relationships d1 = task_relationships d"
    for ttl descr
    by (auto simp: insert_task_def Let_def split: option.splits)
  show ?thesis
    using dist
    by (auto simp: post_tasks_def Let_def split: option.splits sum.splits
             dest!: 1 insert_relationships_ok)
qed

lemma distinct_filter_more:
  "distinct (filter P xs) \<Longrightarrow> distinct (filter (\<lambda>x. Q x \<and> R x \<and> P x) xs)"
proof -
  assume "distinct (filter P xs)"
  then have "distinct (filter (\<lambda>x. Q x \<and> R x) (filter P xs))" by (rule distinct_filter)
  then show ?thesis by (simp add: conj_ac)
qed

lemma reachable_db_a: "reachable db_a"
proof -
  have "reachable (snd (post_tasks rt_example None None 0 body_a open_db))"
    by (rule reachable_post) (rule reachable_open)
  then show ?thesis by (simp add: post_a)
qed

lemma reachable_db_ab: "reachable db_ab"
proof -
  have "reachable (snd (post_tasks rt_example None None 0 body_b db_a))"
    by (rule reachable_post) (rule reachable_db_a)
  then show ?thesis by (simp add: post_b)
qed





section \<open>Creating a task without a title\<close>

text \<open>
  C6. A POST /tasks whose body has no title, or the empty string as title, is answered
  with status 400 and the message "Title is required", and the store is left as it was:
  no task row and no relationship row is written.
\<close>

theorem post_tasks_without_title:
  "title b = None \<or> title b = Some [] \<Longrightarrow>
   post_tasks rt fault1 fault2 now b d = (\<lparr>status = 400, body = ErrorBody ''Title is required''\<rparr>, d)"
  by (auto simp: post_tasks_def Let_def)

theorem post_tasks_without_title_witness:
  "post_tasks rt_example None None 7
     \<lparr>title = None, description = Some ''d'', parentTasks = Some [JNum (Num 1)], childTasks = None\<rparr> open_db
   = (\<lparr>status = 400, body = ErrorBody ''Title is required''\<rparr>, open_db)"
  using post_tasks_without_title [of "\<lparr>title = None, description = Some ''d'', parentTasks = Some [JNum (Num 1)], childTasks = None\<rparr>" rt_example None None 7 open_db]
  by simp

section \<open>The position of a new task\<close>

text \<open>
  C3. After a POST /tasks answered with status 200, the table \<open>tasks\<close> is the table
  before with one row added, the row the response names; its position is one more than
  the largest position among the rows before, and 0 when there was no row.
\<close>

theorem post_tasks_position:
  assumes "post_tasks rt fault1 fault2 now b d = (res, d')" and "status res = 200"
  shows "\<exists>row. tasks d' = tasks d @ [row]
           \<and> body res = CreatedBody (t_id row) (t_title row) (t_description row)
           \<and> t_position row = (if tasks d = [] then 0 else Max (set (map t_position (tasks d))) + 1)"
proof -
  from assms obtain ttl where ttl: "title b = Some ttl" "ttl \<noteq> []"
    by (auto simp: post_tasks_def Let_def split: option.splits if_splits)
  from assms ttl obtain i d1 where ins: "insert_task fault1 ttl (description b) now d = Inr (i, d1)"
    by (auto simp: post_tasks_def Let_def split: sum.splits)
  then have f1: "fault1 = None"
    by (cases fault1) (simp_all add: insert_task_def)
  from insert_task_ok [OF ins [unfolded f1]] obtain row where row:
    "tasks d1 = tasks d @ [row]" "t_id row = i" "t_title row = ttl" "t_description row = description b"
    "t_position row = (if tasks d = [] then 0 else Max (set (map t_position (tasks d))) + 1)"
    by blast
  from assms ttl ins have "tasks d' = tasks d1 \<and> body res = CreatedBody i ttl (description b)"
    by (auto simp: post_tasks_def Let_def split: sum.splits if_splits dest: insert_relationships_ok)
  with row show ?thesis by auto
qed

theorem post_tasks_position_witness:
  "\<exists>row. tasks db_ab = tasks db_a @ [row]
     \<and> CreatedBody 2 ''b'' None = CreatedBody (t_id row) (t_title row) (t_description row)
     \<and> t_position row = 1"
proof -
  have "status \<lparr>status = 200, body = CreatedBody 2 ''b'' None\<rparr> = 200" by simp
  from post_tasks_position [OF post_b this] show ?thesis
    by (simp add: db_a_def task_a_def)
qed

section \<open>The relationship rows of a new task\<close>

text \<open>
  C4. After a POST /tasks answered with status 200, the table \<open>task_relationships\<close>
  is the table before followed by exactly the rows (p, new id) for each p of
  \<open>parentTasks\<close> and (new id, c) for each c of \<open>childTasks\<close>, in that order, each
  element as the store holds the value bound for it. When both lists are empty or
  absent and the title is present, the request is answered with 200 whenever the
  INSERT into \<open>tasks\<close> works, whatever the store would have answered to an INSERT
  into \<open>task_relationships\<close>: none is run, and the table is unchanged.
\<close>

theorem post_tasks_relationships:
  "(post_tasks rt fault1 fault2 now b d = (res, d') \<and> status res = 200 \<longrightarrow>
      (\<exists>row. tasks d' = tasks d @ [row]
         \<and> body res = CreatedBody (t_id row) (t_title row) (t_description row)
         \<and> task_relationships d' =
             task_relationships d
             @ map (\<lambda>p. (store_value rt p, SInt (t_id row))) (list_or_empty (parentTasks b))
             @ map (\<lambda>c. (SInt (t_id row), store_value rt c)) (list_or_empty (childTasks b))))
   \<and> (list_or_empty (parentTasks b) = [] \<and> list_or_empty (childTasks b) = []
        \<and> title b = Some ttl \<and> ttl \<noteq> [] \<longrightarrow>
      status (fst (post_tasks rt None fault2 now b d)) = 200
      \<and> task_relationships (snd (post_tasks rt None fault2 now b d)) = task_relationships d)"
proof (intro conjI impI)
  assume a: "post_tasks rt fault1 fault2 now b d = (res, d') \<and> status res = 200"
  then obtain ttl where ttl: "title b = Some ttl" "ttl \<noteq> []"
    by (auto simp: post_tasks_def Let_def split: option.splits if_splits)
  from a ttl obtain i d1 where ins: "insert_task fault1 ttl (description b) now d = Inr (i, d1)"
    by (auto simp: post_tasks_def Let_def split: sum.splits)
  then have f1: "fault1 = None"
    by (cases fault1) (simp_all add: insert_task_def)
  from insert_task_ok [OF ins [unfolded f1]] obtain row where row:
    "tasks d1 = tasks d @ [row]" "t_id row = i" "t_title row = ttl" "t_description row = description b"
    "task_relationships d1 = task_relationships d"
    by blast
  from a ttl ins have "tasks d' = tasks d1 \<and> body res = CreatedBody i ttl (description b)
      \<and> task_relationships d' = task_relationships d1
           @ map (\<lambda>p. (store_value rt p, SInt i)) (list_or_empty (parentTasks b))
           @ map (\<lambda>c. (SInt i, store_value rt c)) (list_or_empty (childTasks b))"
    by (auto simp: post_tasks_def Let_def list_or_empty_def
             split: sum.splits if_splits option.splits dest: insert_relationships_ok)
  with row show "\<exists>row. tasks d' = tasks d @ [row]
         \<and> body res = CreatedBody (t_id row) (t_title row) (t_description row)
         \<and> task_relationships d' =
             task_relationships d
             @ map (\<lambda>p. (store_value rt p, SInt (t_id row))) (list_or_empty (parentTasks b))
             @ map (\<lambda>c. (SInt (t_id row), store_value rt c)) (list_or_empty (childTasks b))"
    by auto
next
  assume a: "list_or_empty (parentTasks b) = [] \<and> list_or_empty (childTasks b) = []
        \<and> title b = Some ttl \<and> ttl \<noteq> []"
  then show "status (fst (post_tasks rt None fault2 now b d)) = 200"
    by (auto simp: post_tasks_def insert_task_def Let_def list_or_empty_def split: option.splits)
  from a show "task_relationships (snd (post_tasks rt None fault2 now b d)) = task_relationships d"
    by (auto simp: post_tasks_def insert_task_def Let_def list_or_empty_def split: option.splits)
qed

theorem post_tasks_relationships_witness:
  "(\<exists>row. tasks db_ab = tasks db_a @ [row]
      \<and> CreatedBody 2 ''b'' None = CreatedBody (t_id row) (t_title row) (t_description row)
      \<and> task_relationships db_ab = [(SInt 1, SInt (t_id row))])
   \<and> status (fst (post_tasks rt_example None (Some ''SQLITE_BUSY'') 0 body_a open_db)) = 200
   \<and> task_relationships (snd (post_tasks rt_example None (Some ''SQLITE_BUSY'') 0 body_a open_db)) = []"
proof -
  have s: "post_tasks rt_example None None 0 body_b db_a = (\<lparr>status = 200, body = CreatedBody 2 ''b'' None\<rparr>, db_ab)
           \<and> status \<lparr>status = 200, body = CreatedBody 2 ''b'' None\<rparr> = 200"
    using post_b by simp
  have e: "list_or_empty (parentTasks body_a) = [] \<and> list_or_empty (childTasks body_a) = []
           \<and> title body_a = Some ''a'' \<and> ''a'' \<noteq> []"
    by (simp add: body_a_def list_or_empty_def)
  from post_tasks_relationships [of rt_example None None 0 body_b db_a _ db_ab, THEN conjunct1, rule_format, OF s]
  have 1: "\<exists>row. tasks db_ab = tasks db_a @ [row]
      \<and> CreatedBody 2 ''b'' None = CreatedBody (t_id row) (t_title row) (t_description row)
      \<and> task_relationships db_ab = [(SInt 1, SInt (t_id row))]"
    by (simp add: body_b_def list_or_empty_def db_a_def)
  from post_tasks_relationships [of rt_example None "Some ''SQLITE_BUSY''" 0 body_a open_db _ _ "''a''", THEN conjunct2, rule_format, OF e]
  have 2: "status (fst (post_tasks rt_example None (Some ''SQLITE_BUSY'') 0 body_a open_db)) = 200
   \<and> task_relationships (snd (post_tasks rt_example None (Some ''SQLITE_BUSY'') 0 body_a open_db)) = []"
    by (simp add: open_db_def)
  from 1 2 show ?thesis by blast
qed

section \<open>Setting the completion flag\<close>



text \<open>
  C5. The message of the 200 response takes its label from \<open>done == 1\<close>, the stored
  value from \<open>done ? 1 : 0\<close>, and the two differ: for \<open>done = 2\<close> on task 1 the
  handler stores 1 and answers "Belum Selesai".
\<close>

theorem put_task_label_differs_from_stored:
  "put_task rt None 1 (Some (JNum (Num 2))) db_a =
     (\<lparr>status = 200, body = MessageBody ''Status task 1 berhasil diubah: Belum Selesai''\<rparr>,
      db_a\<lparr>tasks := [task_a\<lparr>t_done := 1\<rparr>]\<rparr>)"
  by (simp add: put_task_def update_done_def int_text_def nat_text.simps digit_char_def db_a_def task_a_def)

text \<open>For a boolean \<open>done\<close> the label and the stored value agree.\<close>

lemma put_task_label_boolean:
  "known_task d taskId \<Longrightarrow>
   put_task rt None taskId (Some (JBool b)) d =
     (\<lparr>status = 200,
       body = MessageBody (''Status task '' @ int_text taskId @ '' berhasil diubah: '' @
                (if b then ''Selesai'' else ''Belum Selesai''))\<rparr>,
      d\<lparr>tasks := map (\<lambda>t. if t_id t = taskId then t\<lparr>t_done := (if b then 1 else 0)\<rparr> else t) (tasks d)\<rparr>)"
  by (simp add: put_task_def update_done_def known_task_filter)

section \<open>Reordering: the response\<close>

text \<open>
  C2. The response of PUT /tasks/reorder is chosen before any queued UPDATE has run:
  for \<open>tasks = [2, 1]\<close> with the second UPDATE failing, the response is still 200
  with the success message, in whatever order the two statements run;
  \<open>errorOccurred\<close> becomes true only afterwards, when nothing reads it. The first
  UPDATE stays applied: task 2 has position 0.
\<close>

theorem reorder_answers_200_when_update_fails:
  "put_tasks_reorder rt (\<lambda>i. if i = 1 then Some ''SQLITE_BUSY: database is locked'' else None) choices
       (Some [JNum (Num 2), JNum (Num 1)]) db_ab
     = (\<lparr>status = 200, body = MessageBody ''Tasks reordered successfully''\<rparr>,
        db_ab\<lparr>tasks := [task_a, task_b\<lparr>t_position := 0\<rparr>]\<rparr>)
   \<and> fst (run_queued (\<lambda>i. if i = 1 then Some ''SQLITE_BUSY: database is locked'' else None)
          (scheduled choices [(0, SInt 2), (1, SInt 1)]) (False, db_ab)) = True"
proof -
  have d: "distinct (map (store_value rt) [JNum (Num 2), JNum (Num 1)])" by simp
  from reorder_db [OF d, of "\<lambda>i. if i = 1 then Some ''SQLITE_BUSY: database is locked'' else None" choices db_ab]
  show ?thesis
    by (simp add: repositioned_def db_ab_def task_a_def task_b_def upt_rec_numeral)
qed

text \<open>For an array, the response is the success message whatever the queued statements do.\<close>

lemma reorder_never_500:
  "fst (put_tasks_reorder rt faults choices (Some ts) d)
   = \<lparr>status = 200, body = MessageBody ''Tasks reordered successfully''\<rparr>"
  by (simp add: put_tasks_reorder_def)

section \<open>Deleting a task\<close>

text \<open>
  C1. On the connection app.js opens, foreign keys are not enforced, and DELETE
  /tasks/:id removes the task's row only: after task 2, a child of task 1, has been
  deleted with status 200, the row (1, 2) is still in \<open>task_relationships\<close> and GET
  /tasks still lists 2 among the \<open>child_tasks\<close> of task 1.
\<close>

theorem delete_leaves_relationship_rows:
  "delete_tasks None 2 db_ab =
     (\<lparr>status = 200, body = MessageBody ''Task deleted successfully''\<rparr>,
      \<lparr>tasks = [task_a], task_relationships = [(SInt 1, SInt 2)], sqlite_sequence = 2, foreign_keys = False\<rparr>)
   \<and> get_tasks rt None (snd (delete_tasks None 2 db_ab)) =
       \<lparr>status = 200, body = TasksBody [\<lparr>v_task = task_a, child_tasks = [Num 2], parent_tasks = []\<rparr>]\<rparr>"
  by (simp add: delete_tasks_def delete_task_def db_ab_def task_a_def task_b_def get_defs
        round_to_double_exact)

text \<open>On a connection that enforces foreign keys the rows naming the deleted task go with it.\<close>

lemma delete_cascades_when_enforced:
  "foreign_keys d \<Longrightarrow> delete_tasks None taskId d = (res, d') \<Longrightarrow> status res = 200 \<Longrightarrow>
   \<forall>r \<in> set (task_relationships d'). fst r \<noteq> SInt taskId \<and> snd r \<noteq> SInt taskId"
  by (auto simp: delete_tasks_def delete_task_def Let_def split: if_splits)

section \<open>Listing tasks\<close>

text \<open>
  C8, as amended. Over a store whose relationship rows hold, besides NULL, only
  integers of magnitude at most \<open>2 ^ 53\<close>, GET /tasks on a working store answers 200
  with one entry per row of \<open>tasks\<close>. In every entry, \<open>child_tasks\<close> is an array
  of integers without repetition whose elements are exactly the child ids of the
  relationship rows that have the task as parent, and \<open>parent_tasks\<close> likewise the
  parent ids of the rows that have it as child; a task that no relationship row names
  has the empty array in both fields.
\<close>

theorem get_tasks_relationship_arrays:
  assumes "safe_ids d"
  shows "get_tasks rt None d = \<lparr>status = 200, body = TasksBody (map (task_view_of rt) (select_tasks rt d))\<rparr>
   \<and> set (map v_task (map (task_view_of rt) (select_tasks rt d))) = set (tasks d)
   \<and> (\<forall>v \<in> set (map (task_view_of rt) (select_tasks rt d)).
        \<exists>cs ps. child_tasks v = map (\<lambda>i. Num (of_int i)) cs \<and> distinct cs
               \<and> set cs = {c. (SInt (t_id (v_task v)), SInt c) \<in> set (task_relationships d)}
               \<and> parent_tasks v = map (\<lambda>i. Num (of_int i)) ps \<and> distinct ps
               \<and> set ps = {p. (SInt p, SInt (t_id (v_task v))) \<in> set (task_relationships d)}
               \<and> ((\<forall>r \<in> set (task_relationships d).
                      fst r \<noteq> SInt (t_id (v_task v)) \<and> snd r \<noteq> SInt (t_id (v_task v)))
                    \<longrightarrow> child_tasks v = [] \<and> parent_tasks v = []))"
proof (intro conjI ballI)
  show "get_tasks rt None d = \<lparr>status = 200, body = TasksBody (map (task_view_of rt) (select_tasks rt d))\<rparr>"
    by (simp add: get_tasks_def)
  have "map v_task (map (task_view_of rt) (select_tasks rt d)) = map a_task (select_tasks rt d)"
    by (simp add: task_view_of_def)
  then show "set (map v_task (map (task_view_of rt) (select_tasks rt d))) = set (tasks d)"
    using select_tasks_tasks [of rt d] by simp
next
  fix v
  assume "v \<in> set (map (task_view_of rt) (select_tasks rt d))"
  then obtain a where a: "a \<in> set (select_tasks rt d)" and v: "v = task_view_of rt a"
    by auto
  let ?t = "a_task a"
  let ?cv = "rev (remdups (rev (filter (\<lambda>v. v \<noteq> SNull) (map fst (joined_group d ?t)))))"
  let ?pv = "rev (remdups (rev (filter (\<lambda>v. v \<noteq> SNull) (map snd (joined_group d ?t)))))"
  let ?cs = "map sql_int ?cv"
  let ?ps = "map sql_int ?pv"
  have vt: "v_task v = ?t" using v by (simp add: task_view_of_def)
  have scv: "set ?cv = {v. v \<noteq> SNull \<and> (SInt (t_id ?t), v) \<in> set (task_relationships d)}"
    using joined_group_children [of d ?t] by simp
  have spv: "set ?pv = {v. v \<noteq> SNull \<and> (v, SInt (t_id ?t)) \<in> set (task_relationships d)}"
    using joined_group_parents [of d ?t] by simp
  have safe_cv: "\<forall>v \<in> set ?cv. safe_id v \<and> v \<noteq> SNull"
    unfolding scv using safe_ids_cells [OF assms] by blast
  have safe_pv: "\<forall>v \<in> set ?pv. safe_id v \<and> v \<noteq> SNull"
    unfolding spv using safe_ids_cells [OF assms] by blast
  have safe_c: "\<forall>v \<in> set (map fst (joined_group d ?t)). safe_id v"
  proof
    fix w assume w: "w \<in> set (map fst (joined_group d ?t))"
    show "safe_id w"
    proof (cases "w = SNull")
      case True then show ?thesis by simp
    next
      case False
      with w have "w \<in> set ?cv" by simp
      with safe_cv show ?thesis by blast
    qed
  qed
  have safe_p: "\<forall>v \<in> set (map snd (joined_group d ?t)). safe_id v"
  proof
    fix w assume w: "w \<in> set (map snd (joined_group d ?t))"
    show "safe_id w"
    proof (cases "w = SNull")
      case True then show ?thesis by simp
    next
      case False
      with w have "w \<in> set ?pv" by simp
      with safe_pv show ?thesis by blast
    qed
  qed
  have c: "child_tasks v = map (\<lambda>i. Num (of_int i)) ?cs"
    using v select_tasks_set [OF a] ids_of_group_concat [OF safe_c, of rt]
    by (simp add: task_view_of_def)
  have p: "parent_tasks v = map (\<lambda>i. Num (of_int i)) ?ps"
    using v select_tasks_set [OF a] ids_of_group_concat [OF safe_p, of rt]
    by (simp add: task_view_of_def)
  have sc: "set ?cs = {c. (SInt (t_id ?t), SInt c) \<in> set (task_relationships d)}"
    unfolding sql_int_set [OF safe_cv] scv by simp
  have sp: "set ?ps = {p. (SInt p, SInt (t_id ?t)) \<in> set (task_relationships d)}"
    unfolding sql_int_set [OF safe_pv] spv by simp
  have dc: "distinct ?cs" by (rule sql_int_distinct [OF safe_cv]) simp
  have dp: "distinct ?ps" by (rule sql_int_distinct [OF safe_pv]) simp
  have e: "(\<forall>r \<in> set (task_relationships d). fst r \<noteq> SInt (t_id ?t) \<and> snd r \<noteq> SInt (t_id ?t))
            \<longrightarrow> ?cs = [] \<and> ?ps = []"
  proof
    assume n: "\<forall>r \<in> set (task_relationships d). fst r \<noteq> SInt (t_id ?t) \<and> snd r \<noteq> SInt (t_id ?t)"
    then have "set ?cs = {}" "set ?ps = {}"
      unfolding sc sp by force+
    then show "?cs = [] \<and> ?ps = []" by (simp only: set_empty)
  qed
  show "\<exists>cs ps. child_tasks v = map (\<lambda>i. Num (of_int i)) cs \<and> distinct cs
               \<and> set cs = {c. (SInt (t_id (v_task v)), SInt c) \<in> set (task_relationships d)}
               \<and> parent_tasks v = map (\<lambda>i. Num (of_int i)) ps \<and> distinct ps
               \<and> set ps = {p. (SInt p, SInt (t_id (v_task v))) \<in> set (task_relationships d)}
               \<and> ((\<forall>r \<in> set (task_relationships d).
                      fst r \<noteq> SInt (t_id (v_task v)) \<and> snd r \<noteq> SInt (t_id (v_task v)))
                    \<longrightarrow> child_tasks v = [] \<and> parent_tasks v = [])"
  proof (rule exI [of _ ?cs], rule exI [of _ ?ps], intro conjI)
    show "child_tasks v = map (\<lambda>i. Num (of_int i)) ?cs" by (rule c)
    show "parent_tasks v = map (\<lambda>i. Num (of_int i)) ?ps" by (rule p)
    show "distinct ?cs" by (rule dc)
    show "distinct ?ps" by (rule dp)
    show "set ?cs = {c. (SInt (t_id (v_task v)), SInt c) \<in> set (task_relationships d)}" unfolding vt by (rule sc)
    show "set ?ps = {p. (SInt p, SInt (t_id (v_task v))) \<in> set (task_relationships d)}" unfolding vt by (rule sp)
    show "(\<forall>r \<in> set (task_relationships d).
              fst r \<noteq> SInt (t_id (v_task v)) \<and> snd r \<noteq> SInt (t_id (v_task v)))
                    \<longrightarrow> child_tasks v = [] \<and> parent_tasks v = []"
      using e unfolding vt c p by simp
  qed
qed

theorem get_tasks_relationship_arrays_witness:
  "\<exists>cs ps. child_tasks \<lparr>v_task = task_a, child_tasks = [Num 2], parent_tasks = []\<rparr> = map (\<lambda>i. Num (of_int i)) cs
      \<and> distinct cs \<and> set cs = {2}
      \<and> parent_tasks \<lparr>v_task = task_a, child_tasks = [Num 2], parent_tasks = []\<rparr> = map (\<lambda>i. Num (of_int i)) ps
      \<and> distinct ps \<and> set ps = {}"
proof -
  let ?v = "\<lparr>v_task = task_a, child_tasks = [Num 2], parent_tasks = []\<rparr>"
  have s: "safe_ids db_ab" by (simp add: safe_ids_def db_ab_def)
  have g: "get_tasks rt_example None db_ab =
      \<lparr>status = 200, body = TasksBody [?v, \<lparr>v_task = task_b, child_tasks = [], parent_tasks = [Num 1]\<rparr>]\<rparr>"
    by (simp add: get_defs db_ab_def task_a_def task_b_def round_to_double_exact)
  have m: "?v \<in> set (map (task_view_of rt_example) (select_tasks rt_example db_ab))"
    using g get_tasks_relationship_arrays [OF s, of rt_example, THEN conjunct1] by simp
  have c: "{c. (SInt (t_id (v_task ?v)), SInt c) \<in> set (task_relationships db_ab)} = {2}"
    by (auto simp: db_ab_def task_a_def)
  have p: "{p. (SInt p, SInt (t_id (v_task ?v))) \<in> set (task_relationships db_ab)} = {}"
    by (auto simp: db_ab_def task_a_def)
  from get_tasks_relationship_arrays [OF s, of rt_example, THEN conjunct2, THEN conjunct2, THEN bspec, OF m]
  show ?thesis unfolding c p by blast
qed

text \<open>
  C8 as stated fails on a store that holds other values, which POST /tasks writes
  unchecked. With \<open>childTasks = ["2,3"]\<close> the one row of task 2 holds the text
  "2,3" as child, and GET /tasks returns \<open>child_tasks = [2, 3]\<close>: two ids, neither
  the child of any row. With \<open>childTasks = ["9007199254740993"]\<close> the row holds the
  integer 9007199254740993 and GET /tasks returns 9007199254740992, the nearest
  JavaScript number.
\<close>

theorem get_tasks_counterexample:
  "post_tasks rt_example None None 0
     \<lparr>title = Some ''b'', description = None, parentTasks = None, childTasks = Some [JStr ''2,3'']\<rparr> db_a
   = (\<lparr>status = 200, body = CreatedBody 2 ''b'' None\<rparr>,
      db_a\<lparr>tasks := [task_a, task_b], task_relationships := [(SInt 2, SText ''2,3'')], sqlite_sequence := 2\<rparr>)
   \<and> get_tasks rt_example None
        (db_a\<lparr>tasks := [task_a, task_b], task_relationships := [(SInt 2, SText ''2,3'')], sqlite_sequence := 2\<rparr>)
   = \<lparr>status = 200, body = TasksBody
        [\<lparr>v_task = task_a, child_tasks = [], parent_tasks = []\<rparr>,
         \<lparr>v_task = task_b, child_tasks = [Num 2, Num 3], parent_tasks = []\<rparr>]\<rparr>
   \<and> post_tasks rt_example None None 0
     \<lparr>title = Some ''b'', description = None, parentTasks = None,
      childTasks = Some [JStr ''9007199254740993'']\<rparr> db_a
   = (\<lparr>status = 200, body = CreatedBody 2 ''b'' None\<rparr>,
      db_a\<lparr>tasks := [task_a, task_b], task_relationships := [(SInt 2, SInt 9007199254740993)], sqlite_sequence := 2\<rparr>)
   \<and> get_tasks rt_example None
        (db_a\<lparr>tasks := [task_a, task_b], task_relationships := [(SInt 2, SInt 9007199254740993)], sqlite_sequence := 2\<rparr>)
   = \<lparr>status = 200, body = TasksBody
        [\<lparr>v_task = task_a, child_tasks = [], parent_tasks = []\<rparr>,
         \<lparr>v_task = task_b, child_tasks = [Num 9007199254740992], parent_tasks = []\<rparr>]\<rparr>"
proof (intro conjI)
  show "post_tasks rt_example None None 0
     \<lparr>title = Some ''b'', description = None, parentTasks = None, childTasks = Some [JStr ''2,3'']\<rparr> db_a
   = (\<lparr>status = 200, body = CreatedBody 2 ''b'' None\<rparr>,
      db_a\<lparr>tasks := [task_a, task_b], task_relationships := [(SInt 2, SText ''2,3'')], sqlite_sequence := 2\<rparr>)"
    by (simp add: store_defs db_a_def task_a_def task_b_def)
  show "get_tasks rt_example None
        (db_a\<lparr>tasks := [task_a, task_b], task_relationships := [(SInt 2, SText ''2,3'')], sqlite_sequence := 2\<rparr>)
   = \<lparr>status = 200, body = TasksBody
        [\<lparr>v_task = task_a, child_tasks = [], parent_tasks = []\<rparr>,
         \<lparr>v_task = task_b, child_tasks = [Num 2, Num 3], parent_tasks = []\<rparr>]\<rparr>"
    by (simp add: get_defs db_a_def task_a_def task_b_def round_to_double_exact)
  show "post_tasks rt_example None None 0
     \<lparr>title = Some ''b'', description = None, parentTasks = None,
      childTasks = Some [JStr ''9007199254740993'']\<rparr> db_a
   = (\<lparr>status = 200, body = CreatedBody 2 ''b'' None\<rparr>,
      db_a\<lparr>tasks := [task_a, task_b], task_relationships := [(SInt 2, SInt 9007199254740993)], sqlite_sequence := 2\<rparr>)"
    by (simp add: store_defs db_a_def task_a_def task_b_def)
  show "get_tasks rt_example None
        (db_a\<lparr>tasks := [task_a, task_b], task_relationships := [(SInt 2, SInt 9007199254740993)], sqlite_sequence := 2\<rparr>)
   = \<lparr>status = 200, body = TasksBody
        [\<lparr>v_task = task_a, child_tasks = [], parent_tasks = []\<rparr>,
         \<lparr>v_task = task_b, child_tasks = [Num 9007199254740992], parent_tasks = []\<rparr>]\<rparr>"
    by (simp add: get_defs db_a_def task_a_def task_b_def round_example)
qed

section \<open>Uniqueness of relationship rows\<close>

text \<open>
  C9, as amended. In every database the endpoints reach from the database as first
  opened, no (parent_id, child_id) pair without a NULL occurs twice in
  \<open>task_relationships\<close>; and each of POST /tasks, PUT /tasks/reorder, PUT /tasks/:id
  and DELETE /tasks/:id, run on a database without such a repeated pair, leaves one
  without, whatever the request and whether or not the store works.
\<close>

theorem relationships_unique:
  "(reachable d \<longrightarrow> distinct (filter no_null (task_relationships d)))
   \<and> (distinct (filter no_null (task_relationships d)) \<longrightarrow>
        distinct (filter no_null (task_relationships (snd (post_tasks rt fault1 fault2 now b d))))
        \<and> distinct (filter no_null (task_relationships (snd (put_tasks_reorder rt faults choices tasks_field d))))
        \<and> distinct (filter no_null (task_relationships (snd (put_task rt fault taskId done_field d))))
        \<and> distinct (filter no_null (task_relationships (snd (delete_tasks fault taskId d)))))"
proof -
  have step: "distinct (filter no_null (task_relationships (snd (post_tasks rt fault1 fault2 now b d))))
        \<and> distinct (filter no_null (task_relationships (snd (put_tasks_reorder rt faults choices tasks_field d))))
        \<and> distinct (filter no_null (task_relationships (snd (put_task rt fault taskId done_field d))))
        \<and> distinct (filter no_null (task_relationships (snd (delete_tasks fault taskId d))))"
    if dist: "distinct (filter no_null (task_relationships d))"
    for d rt fault1 fault2 now b faults choices tasks_field fault taskId done_field
  proof (intro conjI)
    show "distinct (filter no_null (task_relationships (snd (post_tasks rt fault1 fault2 now b d))))"
      using dist by (rule post_tasks_distinct_relationships)
    show "distinct (filter no_null (task_relationships (snd (put_tasks_reorder rt faults choices tasks_field d))))"
      using dist by (cases tasks_field) (simp_all add: put_tasks_reorder_def run_queued_relationships)
    show "distinct (filter no_null (task_relationships (snd (put_task rt fault taskId done_field d))))"
      using dist by (cases fault) (auto simp: put_task_def update_done_def)
    show "distinct (filter no_null (task_relationships (snd (delete_tasks fault taskId d))))"
      using dist by (cases fault) (auto simp: delete_tasks_def delete_task_def Let_def distinct_filter_more)
  qed
  have "distinct (filter no_null (task_relationships d))" if "reachable d"
    using that
  proof (induction rule: reachable.induct)
    case reachable_open
    show ?case by (simp add: open_db_def)
  next
    case (reachable_post d rt fault1 fault2 now b)
    then show ?case using step by blast
  next
    case (reachable_reorder d rt faults choices tasks_field)
    then show ?case using step by blast
  next
    case (reachable_put d rt fault taskId done_field)
    then show ?case using step by blast
  next
    case (reachable_delete d fault taskId)
    then show ?case using step by blast
  qed
  with step show ?thesis by blast
qed

theorem relationships_unique_witness:
  "distinct (filter no_null (task_relationships db_ab))
   \<and> distinct (filter no_null (task_relationships (snd (post_tasks rt_example None None 0 body_b db_ab))))
   \<and> distinct (filter no_null (task_relationships (snd (put_tasks_reorder rt_example (\<lambda>i. None) [] (Some [JNum (Num 2), JNum (Num 1)]) db_ab))))
   \<and> distinct (filter no_null (task_relationships (snd (put_task rt_example None 1 (Some (JBool True)) db_ab))))
   \<and> distinct (filter no_null (task_relationships (snd (delete_tasks None 1 db_ab))))"
  using relationships_unique [of db_ab rt_example None None 0 body_b "\<lambda>i. None" "[]" "Some [JNum (Num 2), JNum (Num 1)]" None 1 "Some (JBool True)"]
    reachable_db_ab
  by blast

text \<open>
  C9 as stated fails for pairs with a NULL: a POST /tasks with
  \<open>childTasks = [null, null]\<close> is answered with 200 and leaves the pair (2, NULL)
  twice in the table.
\<close>

theorem relationships_null_counterexample:
  "post_tasks rt_example None None 0
     \<lparr>title = Some ''b'', description = None, parentTasks = None, childTasks = Some [JNull, JNull]\<rparr> db_a
   = (\<lparr>status = 200, body = CreatedBody 2 ''b'' None\<rparr>,
      db_a\<lparr>tasks := [task_a, task_b], task_relationships := [(SInt 2, SNull), (SInt 2, SNull)],
           sqlite_sequence := 2\<rparr>)
   \<and> \<not> distinct [(SInt 2, SNull), (SInt 2, SNull)]"
  by (simp add: store_defs db_a_def task_a_def task_b_def)

section \<open>Reordering: the positions\<close>




end
